theory Spec2Isabelle
  imports Main "HOL-Library.AList"
begin

section \<open>Go library functions the collection package calls\<close>

text \<open>
  The package builds its store keys with \<^verbatim>\<open>strings.TrimRight\<close>, \<^verbatim>\<open>path.Join\<close>
  and \<^verbatim>\<open>path.Base\<close>. These belong to the Go standard library, so they are
  transcribed here from the library's own algorithms: strings are byte lists.
\<close>

definition TrimRight :: "string \<Rightarrow> string \<Rightarrow> string" where
  \<comment> \<open>\<^verbatim>\<open>strings.TrimRight(s, cutset)\<close>: drop every trailing byte that is in the cutset.\<close>
  "TrimRight s cutset = rev (dropWhile (\<lambda>c. c \<in> set cutset) (rev s))"

definition at_end_or_slash :: "string \<Rightarrow> bool" where
  \<comment> \<open>\<^verbatim>\<open>r+k == n || path[r+k] == '/'\<close> on the unread rest of the path.\<close>
  "at_end_or_slash t = (case t of [] \<Rightarrow> True | c # _ \<Rightarrow> c = CHR ''/'')"

function unwind :: "nat \<Rightarrow> string \<Rightarrow> char \<Rightarrow> string" where
  \<comment> \<open>\<^verbatim>\<open>for out.w > dotdot && out.index(out.w) != '/' { out.w-- }\<close>;
      the third argument is the byte at position \<^verbatim>\<open>out.w\<close>.\<close>
  "unwind dotdot out c =
     (if length out > dotdot \<and> c \<noteq> CHR ''/'' then unwind dotdot (butlast out) (last out)
      else out)"
  by pat_completeness auto
termination
  by (relation "measure (\<lambda>(d, out, c). length out)") auto

definition backtrack :: "nat \<Rightarrow> string \<Rightarrow> string" where
  \<comment> \<open>\<^verbatim>\<open>out.w--\<close> followed by the loop above: drops the last element and its slash.\<close>
  "backtrack dotdot out = unwind dotdot (butlast out) (last out)"

function clean_loop :: "bool \<Rightarrow> string \<Rightarrow> string \<Rightarrow> nat \<Rightarrow> string" where
  \<comment> \<open>The \<^verbatim>\<open>for r < n\<close> loop of \<^verbatim>\<open>path.Clean\<close>: the second argument is
      \<^verbatim>\<open>path[r:]\<close>, the third the bytes written so far.\<close>
  "clean_loop rooted [] out dotdot = out"
| "clean_loop rooted (c # t) out dotdot =
     (if c = CHR ''/'' then clean_loop rooted t out dotdot
      else if c = CHR ''.'' \<and> at_end_or_slash t then clean_loop rooted t out dotdot
      else if c = CHR ''.'' \<and> t \<noteq> [] \<and> hd t = CHR ''.'' \<and> at_end_or_slash (tl t) then
        (if length out > dotdot then
           clean_loop rooted (tl t) (backtrack dotdot out) dotdot
         else if \<not> rooted then
           clean_loop rooted (tl t)
             ((if length out > 0 then out @ ''/'' else out) @ ''..'')
             (length ((if length out > 0 then out @ ''/'' else out) @ ''..''))
         else clean_loop rooted (tl t) out dotdot)
      else
        clean_loop rooted (dropWhile (\<lambda>x. x \<noteq> CHR ''/'') t)
          ((if (rooted \<and> length out \<noteq> 1) \<or> (\<not> rooted \<and> length out \<noteq> 0)
            then out @ ''/'' else out) @ c # takeWhile (\<lambda>x. x \<noteq> CHR ''/'') t)
          dotdot)"
  by pat_completeness auto
termination
  by (relation "measure (\<lambda>(rooted, p, out, d). length p)")
     (auto simp: less_Suc_eq_le length_dropWhile_le intro: le_trans [OF diff_le_self])

definition Clean :: "string \<Rightarrow> string" where
  \<comment> \<open>\<^verbatim>\<open>path.Clean\<close>.\<close>
  "Clean p =
     (if p = [] then ''.''
      else let out = (if hd p = CHR ''/'' then clean_loop True (tl p) ''/'' 1
                      else clean_loop False p [] 0)
           in if out = [] then ''.'' else out)"

fun join_slash :: "string list \<Rightarrow> string" where
  \<comment> \<open>\<^verbatim>\<open>strings.Join(elem, "/")\<close>.\<close>
  "join_slash [] = []"
| "join_slash [e] = e"
| "join_slash (e # es) = e @ ''/'' @ join_slash es"

definition Join :: "string list \<Rightarrow> string" where
  \<comment> \<open>\<^verbatim>\<open>path.Join\<close>: leading empty elements are ignored, the rest is joined with
      slashes and cleaned; the result is empty when every element is.\<close>
  "Join elem =
     (case dropWhile (\<lambda>e. e = []) elem of [] \<Rightarrow> [] | e # es \<Rightarrow> Clean (join_slash (e # es)))"

definition Base :: "string \<Rightarrow> string" where
  \<comment> \<open>\<^verbatim>\<open>path.Base\<close>: the last element of the path, trailing slashes removed first.\<close>
  "Base p =
     (if p = [] then ''.''
      else let e = rev (takeWhile (\<lambda>c. c \<noteq> CHR ''/'') (rev (TrimRight p ''/'')))
           in if e = [] then ''/'' else e)"

section \<open>Collections and their key layout\<close>

type_synonym Index = string

record collection =
  prefix :: string
  indexes :: "Index list option"

definition NewCollection :: "string \<Rightarrow> Index list option \<Rightarrow> collection" where
  "NewCollection pre ixs =
     \<lparr>prefix = (if length pre > 0 \<and> last pre \<noteq> CHR ''/'' then pre @ ''/'' else pre),
      indexes = ixs\<rparr>"

definition path :: "collection \<Rightarrow> string \<Rightarrow> string" where
  "path c key = Join [prefix c, key]"

definition indexDir :: "collection \<Rightarrow> Index \<Rightarrow> string \<Rightarrow> string" where
  "indexDir c index indexVal =
     TrimRight (prefix c) ''/'' @ ''__index_'' @ index @ ''/'' @ indexVal"

definition indexPath :: "collection \<Rightarrow> Index \<Rightarrow> string \<Rightarrow> string \<Rightarrow> string" where
  "indexPath c index indexVal key = Join [indexDir c index indexVal, key]"

text \<open>
  Path elements that \<^verbatim>\<open>path.Clean\<close> keeps as they are: non-empty, free of slashes,
  and neither \<^verbatim>\<open>.\<close> nor \<^verbatim>\<open>..\<close>. \<open>dir_of\<close> writes a directory prefix from
  such elements, each followed by a slash, after an optional leading slash.
\<close>

definition plain_elem :: "string \<Rightarrow> bool" where
  "plain_elem e = (e \<noteq> [] \<and> CHR ''/'' \<notin> set e \<and> e \<noteq> ''.'' \<and> e \<noteq> ''..'')"

definition dir_of :: "bool \<Rightarrow> string list \<Rightarrow> string" where
  "dir_of rooted es = (if rooted then ''/'' else []) @ concat (map (\<lambda>e. e @ ''/'') es)"

text \<open>
  \<open>sep_out\<close> is the separator test of the default branch of \<^verbatim>\<open>path.Clean\<close>, and
  \<open>add_elem\<close> what that branch writes for one element. \<open>ends_with_slash\<close> and
  \<open>has_prefix\<close> are the string tests the prefix invariant speaks about.
\<close>

definition sep_out :: "bool \<Rightarrow> string \<Rightarrow> string" where
  "sep_out rooted out =
     (if (rooted \<and> length out \<noteq> 1) \<or> (\<not> rooted \<and> length out \<noteq> 0) then out @ ''/''
      else out)"

definition add_elem :: "bool \<Rightarrow> string \<Rightarrow> string \<Rightarrow> string" where
  "add_elem rooted acc e = sep_out rooted acc @ e"

definition ends_with_slash :: "string \<Rightarrow> bool" where
  "ends_with_slash p = (p \<noteq> [] \<and> last p = CHR ''/'')"

definition has_prefix :: "string \<Rightarrow> string \<Rightarrow> bool" where
  "has_prefix pre k = (take (length pre) k = pre)"

section \<open>Errors, records and the transaction\<close>

text \<open>
  Modelled from the spec: the error types of the package are declared outside the
  source file. \<^verbatim>\<open>ErrNotFound\<close>, \<^verbatim>\<open>ErrExists\<close> and \<^verbatim>\<open>ErrMalformedValue\<close> carry
  the fields the source fills in (collection prefix, key, and the raw text). \<open>NumError\<close> is
  the error of \<^verbatim>\<open>strconv\<close>; \<open>OtherError\<close> stands for any error of the
  serialization layer or of the store.
\<close>

datatype num_err = ErrSyntax | ErrRange

datatype error =
    ErrNotFound string string
  | ErrExists string string
  | ErrMalformedValue string string string
  | NumError string num_err
  | OtherError string

text \<open>
  Modelled from the spec: \<^verbatim>\<open>proto.Message\<close> and its text codec are external.
  A record type \<open>'r\<close> comes with \<open>String_of\<close> (\<^verbatim>\<open>val.String()\<close>),
  \<open>UnmarshalText\<close> (\<^verbatim>\<open>proto.UnmarshalText\<close>, which resets its target first, so the
  result depends on the text only), \<open>has_field\<close> (whether the struct type has a field of
  that name: \<^verbatim>\<open>FieldByName(...).Interface()\<close> panics otherwise) and \<open>field_text\<close>
  (the field printed with \<^verbatim>\<open>%s\<close>).
\<close>

record 'r proto =
  String_of :: "'r \<Rightarrow> string"
  UnmarshalText :: "string \<Rightarrow> error + 'r"
  has_field :: "Index \<Rightarrow> bool"
  field_text :: "'r \<Rightarrow> Index \<Rightarrow> string"

text \<open>
  Modelled from the spec: the transactional execution context \<^verbatim>\<open>STM\<close> exposes
  \<^verbatim>\<open>Get(path) -> text-or-empty\<close>, \<^verbatim>\<open>Put\<close>, \<^verbatim>\<open>Del\<close> and \<^verbatim>\<open>DelAll\<close>; reads see the
  transaction's own earlier writes. \<open>store\<close> is the content the transaction sees,
  \<open>writes\<close> the mutations queued on it, oldest first.
\<close>

datatype stm_op = OpPut string string | OpDel string | OpDelAll string

record stm =
  store :: "(string \<times> string) list"
  writes :: "stm_op list"

definition stm_Get :: "stm \<Rightarrow> string \<Rightarrow> string" where
  \<comment> \<open>Modelled from the spec: \<^verbatim>\<open>STM.Get\<close>, the empty text for an absent path.\<close>
  "stm_Get s p = (case map_of (store s) p of None \<Rightarrow> [] | Some v \<Rightarrow> v)"

definition stm_Put :: "string \<Rightarrow> string \<Rightarrow> stm \<Rightarrow> stm" where
  \<comment> \<open>Modelled from the spec: \<^verbatim>\<open>STM.Put\<close>.\<close>
  "stm_Put p v s = s\<lparr>store := AList.update p v (store s), writes := writes s @ [OpPut p v]\<rparr>"

definition stm_Del :: "string \<Rightarrow> stm \<Rightarrow> stm" where
  \<comment> \<open>Modelled from the spec: \<^verbatim>\<open>STM.Del\<close>.\<close>
  "stm_Del p s = s\<lparr>store := AList.delete p (store s), writes := writes s @ [OpDel p]\<rparr>"

definition stm_DelAll :: "string \<Rightarrow> stm \<Rightarrow> stm" where
  \<comment> \<open>Modelled from the spec: \<^verbatim>\<open>STM.DelAll\<close>, every path that starts with the prefix.\<close>
  "stm_DelAll pre s =
     s\<lparr>store := filter (\<lambda>kv. take (length pre) (fst kv) \<noteq> pre) (store s),
       writes := writes s @ [OpDelAll pre]\<rparr>"

section \<open>The read-write collection\<close>

text \<open>
  A method that can panic in reflection returns an option (\<open>None\<close> is the panic); a
  method with an \<^verbatim>\<open>error\<close> result returns \<open>error option\<close> beside the new
  transaction state (\<open>None\<close> is \<^verbatim>\<open>nil\<close>).
\<close>

definition readWrite_Get :: "'r proto \<Rightarrow> collection \<Rightarrow> stm \<Rightarrow> string \<Rightarrow> error + 'r" where
  "readWrite_Get P c s key =
     (let valStr = stm_Get s (path c key)
      in if valStr = [] then Inl (ErrNotFound (prefix c) key) else UnmarshalText P valStr)"

definition indexPathFromVal ::
  "'r proto \<Rightarrow> collection \<Rightarrow> 'r \<Rightarrow> Index \<Rightarrow> string \<Rightarrow> string option" where
  "indexPathFromVal P c val index key =
     (if has_field P index then Some (indexPath c index (field_text P val index) key)
      else None)"

fun Put_indexes ::
  "'r proto \<Rightarrow> collection \<Rightarrow> string \<Rightarrow> 'r \<Rightarrow> Index list \<Rightarrow> stm \<Rightarrow> stm option" where
  \<comment> \<open>The \<^verbatim>\<open>for _, index := range c.indexes\<close> loop of \<^verbatim>\<open>Put\<close>.\<close>
  "Put_indexes P c key val [] s = Some s"
| "Put_indexes P c key val (index # rest) s =
     (case indexPathFromVal P c val index key of
        None \<Rightarrow> None
      | Some ip \<Rightarrow>
          (case (case readWrite_Get P c s key of
                   Inl err \<Rightarrow> Some s
                 | Inr clone \<Rightarrow>
                     (case indexPathFromVal P c clone index key of
                        None \<Rightarrow> None
                      | Some originalIndexPath \<Rightarrow>
                          Some (if originalIndexPath \<noteq> ip then stm_Del originalIndexPath s
                                else s)))
           of None \<Rightarrow> None
            | Some s1 \<Rightarrow>
                Put_indexes P c key val rest
                  (if stm_Get s1 ip = [] then stm_Put ip key s1 else s1)))"

definition readWrite_Put ::
  "'r proto \<Rightarrow> collection \<Rightarrow> string \<Rightarrow> 'r \<Rightarrow> stm \<Rightarrow> stm option" where
  "readWrite_Put P c key val s =
     (case (case indexes c of None \<Rightarrow> Some s
                            | Some ixs \<Rightarrow> Put_indexes P c key val ixs s)
      of None \<Rightarrow> None
       | Some s' \<Rightarrow> Some (stm_Put (path c key) (String_of P val) s'))"

definition readWrite_Create ::
  "'r proto \<Rightarrow> collection \<Rightarrow> string \<Rightarrow> 'r \<Rightarrow> stm \<Rightarrow> (error option \<times> stm) option" where
  "readWrite_Create P c key val s =
     (let fullKey = path c key; valStr = stm_Get s fullKey
      in if valStr \<noteq> [] then Some (Some (ErrExists (prefix c) key), s)
         else (case readWrite_Put P c key val s of
                 None \<Rightarrow> None
               | Some s' \<Rightarrow> Some (None, s')))"

fun Delete_indexes ::
  "'r proto \<Rightarrow> collection \<Rightarrow> string \<Rightarrow> Index list \<Rightarrow> stm \<Rightarrow> stm option" where
  \<comment> \<open>The index loop of \<^verbatim>\<open>Delete\<close>; \<^verbatim>\<open>vals[0]\<close> is only a read target, overwritten by
      each successful \<^verbatim>\<open>Get\<close> before it is used.\<close>
  "Delete_indexes P c key [] s = Some s"
| "Delete_indexes P c key (index # rest) s =
     (case readWrite_Get P c s key of
        Inl err \<Rightarrow> Delete_indexes P c key rest s
      | Inr val \<Rightarrow>
          (case indexPathFromVal P c val index key of
             None \<Rightarrow> None
           | Some ip \<Rightarrow> Delete_indexes P c key rest (stm_Del ip s)))"

definition readWrite_Delete ::
  "'r proto \<Rightarrow> collection \<Rightarrow> string \<Rightarrow> 'r list \<Rightarrow> stm \<Rightarrow> (error option \<times> stm) option" where
  "readWrite_Delete P c key vals s =
     (let fullKey = path c key
      in if stm_Get s fullKey = [] then Some (Some (ErrNotFound (prefix c) key), s)
         else (case (case indexes c of
                       None \<Rightarrow> Some s
                     | Some ixs \<Rightarrow>
                         if length vals > 0 then Delete_indexes P c key ixs s else Some s)
               of None \<Rightarrow> None
                | Some s' \<Rightarrow> Some (None, stm_Del fullKey s')))"

definition readWrite_DeleteAll :: "collection \<Rightarrow> stm \<Rightarrow> stm" where
  "readWrite_DeleteAll c s = stm_DelAll (prefix c) s"

text \<open>
  \<^verbatim>\<open>Put\<close> in the words of its description: one step per declared index, then the
  primary write. It is compared with \<open>readWrite_Put\<close> below.
\<close>

definition Put_index_step_spec ::
  "'r proto \<Rightarrow> collection \<Rightarrow> string \<Rightarrow> 'r \<Rightarrow> stm \<Rightarrow> Index \<Rightarrow> stm" where
  "Put_index_step_spec P c key record s ix =
     (let newPath = indexPath c ix (field_text P record ix) key;
          s1 = (case readWrite_Get P c s key of
                  Inl _ \<Rightarrow> s
                | Inr prior \<Rightarrow>
                    (let priorPath = indexPath c ix (field_text P prior ix) key
                     in if priorPath \<noteq> newPath then stm_Del priorPath s else s))
      in if stm_Get s1 newPath = [] then stm_Put newPath key s1 else s1)"

definition Put_spec ::
  "'r proto \<Rightarrow> collection \<Rightarrow> string \<Rightarrow> 'r \<Rightarrow> Index list \<Rightarrow> stm \<Rightarrow> stm" where
  "Put_spec P c key record ixs s =
     stm_Put (path c key) (String_of P record)
       (foldl (Put_index_step_spec P c key record) s ixs)"

section \<open>The integer collection\<close>

text \<open>
  \<^verbatim>\<open>strconv.Atoi\<close> and \<^verbatim>\<open>strconv.Itoa\<close> for a 64-bit \<^verbatim>\<open>int\<close>: an optional sign,
  then decimal digits read left to right, the magnitude checked against the unsigned
  64-bit range as it grows and against the signed range at the end.
\<close>

fun ParseUint_loop :: "string \<Rightarrow> int \<Rightarrow> num_err + int" where
  "ParseUint_loop [] n = Inr n"
| "ParseUint_loop (c # cs) n =
     (if \<not> (48 \<le> (of_char c :: int) \<and> (of_char c :: int) \<le> 57) then Inl ErrSyntax
      else if n \<ge> (2 ^ 64 - 1) div 10 + 1 then Inl ErrRange
      else if n * 10 + (of_char c - 48) > 2 ^ 64 - 1 then Inl ErrRange
      else ParseUint_loop cs (n * 10 + (of_char c - 48)))"

definition Atoi :: "string \<Rightarrow> error + int" where
  "Atoi s =
     (if s = [] then Inl (NumError s ErrSyntax)
      else let neg = (hd s = CHR ''-'');
               body = (if hd s = CHR ''+'' \<or> hd s = CHR ''-'' then tl s else s)
           in if body = [] then Inl (NumError s ErrSyntax)
              else (case ParseUint_loop body 0 of
                      Inl e \<Rightarrow> Inl (NumError s e)
                    | Inr un \<Rightarrow>
                        if \<not> neg \<and> un \<ge> 2 ^ 63 then Inl (NumError s ErrRange)
                        else if neg \<and> un > 2 ^ 63 then Inl (NumError s ErrRange)
                        else Inr (if neg then - un else un)))"

function digits :: "int \<Rightarrow> string" where
  \<comment> \<open>The decimal digits of a non-negative number.\<close>
  "digits n =
     (if n < 10 then [char_of (48 + n)] else digits (n div 10) @ [char_of (48 + n mod 10)])"
  by pat_completeness auto
termination
  by (relation "measure nat") auto

definition Itoa :: "int \<Rightarrow> string" where
  "Itoa i = (if i < 0 then CHR ''-'' # digits (- i) else digits i)"

definition wrap_int :: "int \<Rightarrow> int" where
  \<comment> \<open>Arithmetic on \<^verbatim>\<open>int\<close> wraps around in two's complement.\<close>
  "wrap_int x = (x + 2 ^ 63) mod 2 ^ 64 - 2 ^ 63"

definition readWriteInt_Create ::
  "collection \<Rightarrow> string \<Rightarrow> int \<Rightarrow> stm \<Rightarrow> error option \<times> stm" where
  "readWriteInt_Create c key val s =
     (let fullKey = path c key; valStr = stm_Get s fullKey
      in if valStr \<noteq> [] then (Some (ErrExists (prefix c) key), s)
         else (None, stm_Put fullKey (Itoa val) s))"

definition readWriteInt_Get :: "collection \<Rightarrow> stm \<Rightarrow> string \<Rightarrow> error + int" where
  "readWriteInt_Get c s key =
     (let valStr = stm_Get s (path c key)
      in if valStr = [] then Inl (ErrNotFound (prefix c) key) else Atoi valStr)"

definition readWriteInt_Increment :: "collection \<Rightarrow> string \<Rightarrow> stm \<Rightarrow> error option \<times> stm" where
  "readWriteInt_Increment c key s =
     (let fullKey = path c key; valStr = stm_Get s fullKey
      in if valStr = [] then (Some (ErrNotFound (prefix c) key), s)
         else (case Atoi valStr of
                 Inl err \<Rightarrow> (Some (ErrMalformedValue (prefix c) key valStr), s)
               | Inr val \<Rightarrow> (None, stm_Put fullKey (Itoa (wrap_int (val + 1))) s)))"

definition readWriteInt_Decrement :: "collection \<Rightarrow> string \<Rightarrow> stm \<Rightarrow> error option \<times> stm" where
  "readWriteInt_Decrement c key s =
     (let fullKey = path c key; valStr = stm_Get s fullKey
      in if valStr = [] then (Some (ErrNotFound (prefix c) key), s)
         else (case Atoi valStr of
                 Inl err \<Rightarrow> (Some (ErrMalformedValue (prefix c) key valStr), s)
               | Inr val \<Rightarrow> (None, stm_Put fullKey (Itoa (wrap_int (val - 1))) s)))"

definition readWriteInt_Delete :: "collection \<Rightarrow> string \<Rightarrow> stm \<Rightarrow> error option \<times> stm" where
  "readWriteInt_Delete c key s =
     (let fullKey = path c key
      in if stm_Get s fullKey = [] then (Some (ErrNotFound (prefix c) key), s)
         else (None, stm_Del fullKey s))"

section \<open>The read-only collection\<close>

text \<open>
  Modelled from the spec: the store client exposes a point \<^verbatim>\<open>Get(path)\<close> and a prefix
  range \<^verbatim>\<open>Get(prefix, sortBy=modTime desc)\<close>, and either may fail. \<open>Serving kvs\<close>
  is a reachable store holding the key-value pairs \<open>kvs\<close>, most recently modified
  first; \<open>Failing e\<close> is a store whose requests fail with \<open>e\<close>. The store is live:
  every read-only operation takes the state the store has when it runs.
\<close>

type_synonym kv = "string \<times> string"

datatype etcd = Serving "kv list" | Failing error

definition etcd_Get :: "etcd \<Rightarrow> string \<Rightarrow> error + kv list" where
  \<comment> \<open>Modelled from the spec: the point read of the store client.\<close>
  "etcd_Get cl p =
     (case cl of
        Failing e \<Rightarrow> Inl e
      | Serving kvs \<Rightarrow>
          (case find (\<lambda>kv. fst kv = p) kvs of None \<Rightarrow> Inr [] | Some kv \<Rightarrow> Inr [kv]))"







section \<open>Watching by index\<close>

text \<open>
  Modelled from the spec: a watch event is tagged put, delete or error, carries a key
  and (for put) a value, or an error.
\<close>

datatype EventType = EventPut | EventDelete | EventError

record Event =
  evKey :: string
  evValue :: string
  evType :: EventType
  evErr :: "error option"

text \<open>
  The forwarding loop of \<^verbatim>\<open>WatchByIndex\<close>. Its input is what the index watch
  delivers before its channel closes, each event paired with the store as it is when
  the loop dereferences that event. The result is the list of events sent on the
  output channel and whether the loop closed that channel.
\<close>

fun WatchByIndex :: "collection \<Rightarrow> (Event \<times> etcd) list \<Rightarrow> Event list \<times> bool" where
  "WatchByIndex c [] = ([], True)"
| "WatchByIndex c ((ev, cl) # rest) =
     (case evType ev of
        EventError \<Rightarrow>
          (case evErr ev of
             None \<Rightarrow> ([], False)
           | Some err \<Rightarrow>
               ([\<lparr>evKey = [], evValue = [], evType = EventError, evErr = Some err\<rparr>], True))
      | EventPut \<Rightarrow>
          (case etcd_Get cl (path c (Base (evKey ev))) of
             Inl err \<Rightarrow>
               ([\<lparr>evKey = [], evValue = [], evType = EventError, evErr = Some err\<rparr>], True)
           | Inr Kvs \<Rightarrow>
               if length Kvs = 0 then WatchByIndex c rest
               else (\<lparr>evKey = Base (evKey ev), evValue = snd (hd Kvs), evType = evType ev,
                       evErr = None\<rparr> # fst (WatchByIndex c rest),
                     snd (WatchByIndex c rest)))
      | EventDelete \<Rightarrow>
          (\<lparr>evKey = Base (evKey ev), evValue = [], evType = evType ev, evErr = None\<rparr>
             # fst (WatchByIndex c rest),
           snd (WatchByIndex c rest)))"

section \<open>An example record type\<close>

text \<open>
  A record type with one indexed field, \<^verbatim>\<open>State\<close>, and a small text codec, for
  evaluating the operations on concrete stores. A job whose state is empty serializes
  to the empty text, as a message with only default fields does.
\<close>

record job =
  State :: string

definition job_proto :: "job proto" where
  "job_proto =
     \<lparr>String_of = (\<lambda>j. if State j = [] then [] else ''State:'' @ State j),
      UnmarshalText = (\<lambda>t. if t = [] then Inr \<lparr>State = []\<rparr>
                            else if take 6 t = ''State:'' then Inr \<lparr>State = drop 6 t\<rparr>
                            else Inl (OtherError ''unknown field'')),
      has_field = (\<lambda>f. f = ''State''),
      field_text = (\<lambda>j f. State j)\<rparr>"

definition jobs :: collection where
  "jobs = NewCollection ''jobs'' (Some [''State''])"

definition index_fields_exist :: "'r proto \<Rightarrow> collection \<Rightarrow> bool" where
  \<comment> \<open>Every declared index names a field of the record type, so reflection does not panic.\<close>
  "index_fields_exist P c =
     (case indexes c of None \<Rightarrow> True | Some ixs \<Rightarrow> list_all (has_field P) ixs)"

text \<open>
  Two transaction states for the evaluations: one where job \<^verbatim>\<open>j1\<close> was created in
  state \<^verbatim>\<open>running\<close>, one where the text stored for \<^verbatim>\<open>j1\<close> does not parse.
\<close>

definition s_running :: stm where
  "s_running =
     \<lparr>store = [(''jobs__index_State/running/j1'', ''j1''), (''jobs/j1'', ''State:running'')],
      writes = [OpPut ''jobs__index_State/running/j1'' ''j1'',
                OpPut ''jobs/j1'' ''State:running'']\<rparr>"

definition s_garbage :: stm where
  "s_garbage = \<lparr>store = [(''jobs/j1'', ''garbage'')], writes = []\<rparr>"

text \<open>
  Index watch events for the \<^verbatim>\<open>running\<close> entries of the example collection, and a
  live store that holds job \<^verbatim>\<open>j1\<close> with its index entry.
\<close>

definition ev_put :: "string \<Rightarrow> Event" where
  "ev_put k = \<lparr>evKey = ''jobs__index_State/running/'' @ k, evValue = k, evType = EventPut, evErr = None\<rparr>"

definition ev_delete :: "string \<Rightarrow> Event" where
  "ev_delete k = \<lparr>evKey = ''jobs__index_State/running/'' @ k, evValue = [], evType = EventDelete, evErr = None\<rparr>"

definition live_j1 :: etcd where
  "live_j1 = Serving [(''jobs/j1'', ''State:running''), (''jobs__index_State/running/j1'', ''j1'')]"

section \<open>Path derivation\<close>

text \<open>
  \<^verbatim>\<open>path.Clean\<close> copies a plain element to its output, after a separator where one is
  due, and skips slashes; so it returns a path made of plain elements as it is.
\<close>

lemma at_end_or_slash_simps [simp]:
  "at_end_or_slash [] = True" "at_end_or_slash (c # t) = (c = CHR ''/'')"
  by (simp_all add: at_end_or_slash_def)

lemma plain_elem_Cons: "plain_elem e \<Longrightarrow> \<exists>c cs. e = c # cs \<and> c \<noteq> CHR ''/'' \<and> CHR ''/'' \<notin> set cs"
  by (cases e) (auto simp: plain_elem_def)

lemma takeWhile_noslash: "CHR ''/'' \<notin> set cs \<Longrightarrow> at_end_or_slash rest \<Longrightarrow>
   takeWhile (\<lambda>x. x \<noteq> CHR ''/'') (cs @ rest) = cs"
  by (induction cs) (auto simp: at_end_or_slash_def split: list.splits)

lemma dropWhile_noslash: "CHR ''/'' \<notin> set cs \<Longrightarrow> at_end_or_slash rest \<Longrightarrow>
   dropWhile (\<lambda>x. x \<noteq> CHR ''/'') (cs @ rest) = rest"
  by (induction cs) (auto simp: at_end_or_slash_def split: list.splits)

lemma clean_loop_elem:
  assumes "plain_elem e" "at_end_or_slash rest"
  shows "clean_loop rooted (e @ rest) out d = clean_loop rooted rest (sep_out rooted out @ e) d"
proof -
  from assms(1) obtain c cs where e: "e = c # cs" and c: "c \<noteq> CHR ''/''" and cs: "CHR ''/'' \<notin> set cs"
    using plain_elem_Cons by blast
  have dot: "\<not> (c = CHR ''.'' \<and> at_end_or_slash (cs @ rest))"
    using assms e cs by (cases cs) (auto simp: plain_elem_def)
  have dotdot: "\<not> (c = CHR ''.'' \<and> cs @ rest \<noteq> [] \<and> hd (cs @ rest) = CHR ''.'' \<and> at_end_or_slash (tl (cs @ rest)))"
  proof (cases cs)
    case Nil
    with assms e show ?thesis by (cases rest) (auto simp: plain_elem_def)
  next
    case (Cons c' cs')
    with assms e cs show ?thesis by (cases cs') (auto simp: plain_elem_def)
  qed
  have "clean_loop rooted (c # cs @ rest) out d =
        clean_loop rooted (dropWhile (\<lambda>x. x \<noteq> CHR ''/'') (cs @ rest))
          (sep_out rooted out @ c # takeWhile (\<lambda>x. x \<noteq> CHR ''/'') (cs @ rest)) d"
    by (subst clean_loop.simps(2)) (simp only: c dot dotdot if_False sep_out_def)
  then show ?thesis
    by (simp only: e append_Cons takeWhile_noslash [OF cs assms(2)] dropWhile_noslash [OF cs assms(2)])
qed

lemma clean_loop_slash: "clean_loop rooted (CHR ''/'' # t) out d = clean_loop rooted t out d"
  by simp


lemma join_slash_Cons: "join_slash (e # es) = e @ concat (map (\<lambda>x. CHR ''/'' # x) es)"
  by (induction es arbitrary: e) auto

lemma join_slash_append:
  "ks \<noteq> [] \<Longrightarrow> join_slash (ps @ ks) = concat (map (\<lambda>e. e @ ''/'') ps) @ join_slash ks"
proof (induction ps)
  case Nil
  then show ?case by simp
next
  case (Cons p ps)
  then obtain x xs where "ps @ ks = x # xs" by (cases "ps @ ks") auto
  with Cons show ?case by simp
qed

lemma hd_join_slash: "ks \<noteq> [] \<Longrightarrow> hd ks \<noteq> [] \<Longrightarrow> join_slash ks \<noteq> [] \<and> hd (join_slash ks) = hd (hd ks)"
  by (cases ks) (auto simp: join_slash_Cons)

lemma clean_loop_join:
  "list_all plain_elem ks \<Longrightarrow> ks \<noteq> [] \<Longrightarrow>
   clean_loop rooted (join_slash ks) out d = foldl (add_elem rooted) out ks"
proof (induction ks arbitrary: out)
  case Nil
  then show ?case by simp
next
  case (Cons k ks)
  show ?case
  proof (cases ks)
    case Nil
    have "clean_loop rooted (k @ []) out d = clean_loop rooted [] (add_elem rooted out k) d"
      unfolding add_elem_def using Cons.prems by (intro clean_loop_elem) simp_all
    with Nil show ?thesis by simp
  next
    case (Cons k' ks')
    have "clean_loop rooted (k @ CHR ''/'' # join_slash ks) out d
          = clean_loop rooted (CHR ''/'' # join_slash ks) (add_elem rooted out k) d"
      unfolding add_elem_def using Cons.prems by (intro clean_loop_elem) simp_all
    also have "\<dots> = clean_loop rooted (join_slash ks) (add_elem rooted out k) d"
      by (rule clean_loop_slash)
    also have "\<dots> = foldl (add_elem rooted) (add_elem rooted out k) ks"
      using Cons.prems Cons by (intro Cons.IH) simp_all
    finally show ?thesis using Cons by simp
  qed
qed

lemma clean_loop_dirs:
  "list_all plain_elem ps \<Longrightarrow>
   clean_loop rooted (concat (map (\<lambda>e. e @ ''/'') ps) @ rest) out d
   = clean_loop rooted rest (foldl (add_elem rooted) out ps) d"
proof (induction ps arbitrary: out)
  case Nil
  then show ?case by simp
next
  case (Cons p ps)
  let ?t = "concat (map (\<lambda>e. e @ ''/'') ps) @ rest"
  have "clean_loop rooted (p @ CHR ''/'' # ?t) out d
        = clean_loop rooted (CHR ''/'' # ?t) (add_elem rooted out p) d"
    unfolding add_elem_def using Cons.prems by (intro clean_loop_elem) simp_all
  also have "\<dots> = clean_loop rooted ?t (add_elem rooted out p) d"
    by (rule clean_loop_slash)
  also have "\<dots> = clean_loop rooted rest (foldl (add_elem rooted) (add_elem rooted out p) ps) d"
    using Cons.prems by (intro Cons.IH) simp
  finally show ?case by simp
qed

lemma clean_loop_slashes:
  "clean_loop rooted (replicate n CHR ''/'' @ t) out d = clean_loop rooted t out d"
  by (induction n) (simp_all del: clean_loop.simps add: clean_loop_slash)

lemma add_elem_started:
  "(rooted \<longrightarrow> 1 < length out) \<Longrightarrow> (\<not> rooted \<longrightarrow> out \<noteq> []) \<Longrightarrow>
   add_elem rooted out e = out @ ''/'' @ e"
  by (auto simp: add_elem_def sep_out_def)

lemma add_elem_init: "add_elem rooted (if rooted then ''/'' else []) e = (if rooted then ''/'' else []) @ e"
  by (simp add: add_elem_def sep_out_def)

lemma foldl_sep_started:
  "(rooted \<longrightarrow> 1 < length out) \<Longrightarrow> (\<not> rooted \<longrightarrow> out \<noteq> []) \<Longrightarrow>
   foldl (add_elem rooted) out es = out @ concat (map (\<lambda>x. CHR ''/'' # x) es)"
proof (induction es arbitrary: out)
  case Nil
  then show ?case by simp
next
  case (Cons e es)
  have "foldl (add_elem rooted) (out @ ''/'' @ e) es = (out @ ''/'' @ e) @ concat (map (\<lambda>x. CHR ''/'' # x) es)"
    using Cons.prems by (intro Cons.IH) auto
  then show ?case
    using add_elem_started [OF Cons.prems, of e] by simp
qed

lemma foldl_sep_init:
  assumes "es \<noteq> []" "hd es \<noteq> []"
  shows "foldl (add_elem rooted) (if rooted then ''/'' else []) es
         = (if rooted then ''/'' else []) @ join_slash es"
proof -
  from assms obtain e es' where es: "es = e # es'" and e: "e \<noteq> []" by (cases es) auto
  have "foldl (add_elem rooted) ((if rooted then ''/'' else []) @ e) es'
        = ((if rooted then ''/'' else []) @ e) @ concat (map (\<lambda>x. CHR ''/'' # x) es')"
    using e by (intro foldl_sep_started) auto
  then show ?thesis
    unfolding es foldl_Cons add_elem_init join_slash_Cons by simp
qed

lemma Clean_plain:
  assumes ps: "list_all plain_elem ps" and ks: "list_all plain_elem ks" and ne: "ks \<noteq> []"
    and n: "\<not> rooted \<and> ps = [] \<longrightarrow> n = 0"
  shows "Clean ((if rooted then ''/'' else []) @ concat (map (\<lambda>e. e @ ''/'') ps)
                  @ replicate n CHR ''/'' @ join_slash ks)
         = (if rooted then ''/'' else []) @ join_slash (ps @ ks)"
proof -
  let ?body = "concat (map (\<lambda>e. e @ ''/'') ps) @ replicate n CHR ''/'' @ join_slash ks"
  let ?f = "add_elem rooted"
  let ?o0 = "if rooted then ''/'' else []"
  have all: "list_all plain_elem (ps @ ks)" using ps ks by simp
  have hd_ne: "hd (ps @ ks) \<noteq> []"
    using all ne by (cases "ps @ ks") (auto simp: plain_elem_def)
  have loop: "clean_loop rooted ?body ?o0 d = ?o0 @ join_slash (ps @ ks)" for d
  proof -
    have "clean_loop rooted ?body ?o0 d = clean_loop rooted (replicate n CHR ''/'' @ join_slash ks) (foldl ?f ?o0 ps) d"
      by (rule clean_loop_dirs [OF ps])
    also have "\<dots> = clean_loop rooted (join_slash ks) (foldl ?f ?o0 ps) d"
      by (rule clean_loop_slashes)
    also have "\<dots> = foldl ?f (foldl ?f ?o0 ps) ks"
      by (rule clean_loop_join [OF ks ne])
    also have "\<dots> = foldl ?f ?o0 (ps @ ks)" by simp
    also have "\<dots> = ?o0 @ join_slash (ps @ ks)"
      using ne hd_ne by (intro foldl_sep_init) simp_all
    finally show ?thesis .
  qed
  have ne_res: "join_slash (ps @ ks) \<noteq> []"
    using hd_join_slash [of "ps @ ks"] ne hd_ne by simp
  show ?thesis
  proof (cases rooted)
    case True
    then show ?thesis using loop [of 1] ne_res by (simp add: Clean_def)
  next
    case False
    have body_hd: "?body \<noteq> [] \<and> hd ?body \<noteq> CHR ''/''"
    proof (cases ps)
      case Nil
      with n False have "n = 0" by simp
      moreover have "hd (hd ks) \<noteq> CHR ''/''" "hd ks \<noteq> []"
        using ks ne by (cases ks; cases "hd ks"; auto simp: plain_elem_def)+
      ultimately show ?thesis using Nil hd_join_slash [of ks] ne by simp
    next
      case (Cons p ps')
      with ps show ?thesis by (cases p) (auto simp: plain_elem_def)
    qed
    with False show ?thesis using loop [of 0] ne_res by (simp add: Clean_def)
  qed
qed


lemma join_slash_Cons2: "es \<noteq> [] \<Longrightarrow> join_slash (e # es) = e @ CHR ''/'' # join_slash es"
  by (cases es) simp_all

lemma dirs_join_slash: "es \<noteq> [] \<Longrightarrow> concat (map (\<lambda>e. e @ ''/'') es) = join_slash es @ ''/''"
  by (induction es rule: join_slash.induct) simp_all

lemma dir_of_empty: "dir_of rooted ps = [] \<Longrightarrow> list_all plain_elem ps \<Longrightarrow> \<not> rooted \<and> ps = []"
  by (cases ps) (auto simp: dir_of_def plain_elem_def split: if_splits)

lemma Join_nonempty: "p \<noteq> [] \<Longrightarrow> Join [p, k] = Clean (p @ CHR ''/'' # k)"
  by (cases p) (simp_all add: Join_def)

lemma Join_empty: "k \<noteq> [] \<Longrightarrow> Join [[], k] = Clean k"
  by (cases k) (simp_all add: Join_def)

lemma path_concat:
  assumes ps: "list_all plain_elem ps" and ks: "list_all plain_elem ks" and ne: "ks \<noteq> []"
    and c: "prefix c = dir_of rooted ps"
  shows "path c (join_slash ks) = prefix c @ join_slash ks"
proof -
  have key_ne: "join_slash ks \<noteq> []"
    using hd_join_slash [of ks] ks ne by (cases ks) (auto simp: plain_elem_def)
  show ?thesis
  proof (cases "dir_of rooted ps = []")
    case True
    then have e: "\<not> rooted" "ps = []" using dir_of_empty ps by blast+
    have "Clean ((if False then ''/'' else []) @ concat (map (\<lambda>e. e @ ''/'') [])
                  @ replicate 0 CHR ''/'' @ join_slash ks)
          = (if False then ''/'' else []) @ join_slash ([] @ ks)"
      by (rule Clean_plain) (use ks ne in simp_all)
    then show ?thesis using True Join_empty [OF key_ne] by (simp add: path_def c)
  next
    case False
    have "Clean ((if rooted then ''/'' else []) @ concat (map (\<lambda>e. e @ ''/'') ps)
                  @ replicate 1 CHR ''/'' @ join_slash ks)
          = (if rooted then ''/'' else []) @ join_slash (ps @ ks)"
      by (rule Clean_plain [OF ps ks ne]) (use False in \<open>auto simp: dir_of_def\<close>)
    then have "Clean (dir_of rooted ps @ CHR ''/'' # join_slash ks) = dir_of rooted ps @ join_slash ks"
      by (simp add: join_slash_append [OF ne] dir_of_def)
    then show ?thesis
      using Join_nonempty [OF False] by (simp add: path_def c)
  qed
qed

lemma TrimRight_dir_of:
  assumes "list_all plain_elem ps"
  shows "TrimRight (dir_of rooted ps) ''/''
         = (if ps = [] then [] else (if rooted then ''/'' else []) @ join_slash ps)"
proof (cases ps rule: rev_cases)
  case Nil
  then show ?thesis by (simp add: TrimRight_def dir_of_def)
next
  case (snoc qs p)
  with assms have "p \<noteq> []" "last p \<noteq> CHR ''/''"
    by (auto simp: plain_elem_def) (metis last_in_set)
  then have "hd (rev p) \<noteq> CHR ''/''" "rev p \<noteq> []" by (simp_all add: hd_rev)
  then obtain y ys where "rev p = y # ys" "y \<noteq> CHR ''/''" by (cases "rev p") auto
  then show ?thesis
    using snoc by (simp add: TrimRight_def dir_of_def join_slash_append)
qed

lemma indexPath_concat:
  assumes ps: "list_all plain_elem ps" and ks: "list_all plain_elem ks" and ne: "ks \<noteq> []"
    and vs: "list_all plain_elem vs" and vne: "vs \<noteq> []"
    and ix: "CHR ''/'' \<notin> set index"
    and c: "prefix c = dir_of rooted ps"
  shows "indexPath c index (join_slash vs) (join_slash ks)
         = TrimRight (prefix c) ''/'' @ ''__index_'' @ index @ ''/'' @ join_slash vs @ ''/'' @ join_slash ks"
proof -
  let ?T = "TrimRight (prefix c) ''/''"
  let ?dir = "?T @ ''__index_'' @ index @ ''/'' @ join_slash vs"
  have dir: "indexDir c index (join_slash vs) = ?dir" by (simp add: indexDir_def)
  have key_ne: "join_slash ks \<noteq> []"
    using hd_join_slash [of ks] ks ne by (cases ks) (auto simp: plain_elem_def)
  have J: "indexPath c index (join_slash vs) (join_slash ks) = Clean (?dir @ ''/'' @ join_slash ks)"
    using Join_nonempty [of ?dir "join_slash ks"] by (simp add: indexPath_def dir)
  have vk: "join_slash (vs @ ks) = join_slash vs @ ''/'' @ join_slash ks"
    using join_slash_append [OF ne, of vs] dirs_join_slash [OF vne] by simp
  have vk_ne: "vs @ ks \<noteq> []" using ne by simp
  have mid: "plain_elem (m @ ''__index_'' @ index)" if "CHR ''/'' \<notin> set m" for m
    using that ix by (auto simp: plain_elem_def append_eq_Cons_conv Cons_eq_append_conv)
  show ?thesis
  proof (cases ps rule: rev_cases)
    case Nil
    then have T: "?T = []" using TrimRight_dir_of [OF ps, of rooted] c by simp
    let ?es = "(''__index_'' @ index) # vs @ ks"
    have "Clean ((if False then ''/'' else []) @ concat (map (\<lambda>e. e @ ''/'') [])
                  @ replicate 0 CHR ''/'' @ join_slash ?es)
          = (if False then ''/'' else []) @ join_slash ([] @ ?es)"
      by (rule Clean_plain) (use mid [of "[]"] vs ks in simp_all)
    then have "Clean (join_slash ?es) = join_slash ?es" by simp
    moreover have "join_slash ?es = ?dir @ ''/'' @ join_slash ks"
      using join_slash_Cons2 [OF vk_ne] vk T by simp
    ultimately show ?thesis using J by simp
  next
    case (snoc qs p)
    have p: "CHR ''/'' \<notin> set p" and qs: "list_all plain_elem qs"
      using ps snoc by (auto simp: plain_elem_def)
    have T: "?T = (if rooted then ''/'' else []) @ join_slash (qs @ [p])"
      using TrimRight_dir_of [OF ps, of rooted] c snoc by simp
    let ?es = "qs @ (p @ ''__index_'' @ index) # vs @ ks"
    have "Clean ((if rooted then ''/'' else []) @ concat (map (\<lambda>e. e @ ''/'') [])
                  @ replicate 0 CHR ''/'' @ join_slash ?es)
          = (if rooted then ''/'' else []) @ join_slash ([] @ ?es)"
      by (rule Clean_plain) (use mid [OF p] vs ks qs in simp_all)
    then have "Clean ((if rooted then ''/'' else []) @ join_slash ?es)
               = (if rooted then ''/'' else []) @ join_slash ?es" by simp
    moreover have "(if rooted then ''/'' else []) @ join_slash ?es = ?dir @ ''/'' @ join_slash ks"
      using join_slash_Cons2 [OF vk_ne] vk T by (simp add: join_slash_append)
    ultimately show ?thesis using J by simp
  qed
qed

text \<open>
  The index entry that \<^verbatim>\<open>Put\<close> writes for a key that is one plain element ends with
  that key, so \<^verbatim>\<open>path.Base\<close> of the entry's path gives the key back: this is how the
  readers below find the primary key of an index entry.
\<close>

lemma Base_last_elem:
  assumes "k \<noteq> []" and "CHR ''/'' \<notin> set k"
  shows "Base (x @ CHR ''/'' # k) = k"
proof -
  have "rev k \<noteq> []" "hd (rev k) \<in> set k"
    using assms(1) by (simp_all add: hd_rev)
  then have "\<exists>y ys. rev k = y # ys \<and> y \<noteq> CHR ''/''"
    using assms(2) by (cases "rev k") auto
  then obtain y ys where r: "rev k = y # ys" and y: "y \<noteq> CHR ''/''"
    by blast
  have t: "TrimRight (x @ CHR ''/'' # k) ''/'' = x @ CHR ''/'' # k"
    using r y by (simp add: TrimRight_def)
  have "CHR ''/'' \<notin> set (rev k)" using assms by simp
  then have "takeWhile (\<lambda>c. c \<noteq> CHR ''/'') (rev k @ CHR ''/'' # rev x) = rev k"
    by (intro takeWhile_noslash) simp_all
  then show ?thesis
    using assms by (simp add: Base_def t)
qed

lemma Base_indexPath:
  assumes "prefix c = dir_of rooted ps" and "list_all plain_elem ps" and "plain_elem k"
    and "list_all plain_elem vs" and "vs \<noteq> []" and "CHR ''/'' \<notin> set index"
  shows "Base (indexPath c index (join_slash vs) k) = k"
proof -
  have "indexPath c index (join_slash vs) (join_slash [k])
        = TrimRight (prefix c) ''/'' @ ''__index_'' @ index @ ''/'' @ join_slash vs @ ''/'' @ join_slash [k]"
    using assms by (intro indexPath_concat [of ps _ vs index c rooted]) simp_all
  then have "indexPath c index (join_slash vs) k
        = (TrimRight (prefix c) ''/'' @ ''__index_'' @ index @ ''/'' @ join_slash vs) @ CHR ''/'' # k"
    by simp
  moreover have "k \<noteq> []" "CHR ''/'' \<notin> set k" using assms(3) by (auto simp: plain_elem_def)
  ultimately show ?thesis using Base_last_elem by metis
qed

text \<open>
  Claim C4, as amended. The primary path is \<^verbatim>\<open>path.Join(prefix, key)\<close> and the index
  path \<^verbatim>\<open>path.Join(indexDir, key)\<close>, and \<^verbatim>\<open>path.Join\<close> cleans its result. Where the
  prefix is a directory of plain elements, the key and the index value are made of
  plain elements and the index name holds no slash, cleaning changes nothing: the
  primary path is the prefix followed by the key, and the index path is the prefix
  without its trailing slashes, followed by \<^verbatim>\<open>__index_\<close>, the index name, a
  slash, the index value, a slash and the key.
\<close>

theorem derived_paths_concat:
  assumes "prefix c = dir_of rooted ps" and "list_all plain_elem ps"
    and "list_all plain_elem ks" and "ks \<noteq> []"
    and "list_all plain_elem vs" and "vs \<noteq> []"
    and "CHR ''/'' \<notin> set index"
  shows "path c (join_slash ks) = prefix c @ join_slash ks \<and>
         indexPath c index (join_slash vs) (join_slash ks)
           = TrimRight (prefix c) ''/'' @ ''__index_'' @ index @ ''/'' @ join_slash vs
               @ ''/'' @ join_slash ks"
  using assms path_concat [of ps ks c rooted] indexPath_concat [of ps ks vs index c rooted]
  by simp

theorem derived_paths_concat_witness:
  "prefix jobs = dir_of False [''jobs''] \<and> list_all plain_elem [''jobs''] \<and>
   list_all plain_elem [''j1''] \<and> [''j1''] \<noteq> [] \<and>
   list_all plain_elem [''running''] \<and> [''running''] \<noteq> [] \<and>
   CHR ''/'' \<notin> set ''State'' \<and>
   path jobs ''j1'' = ''jobs/j1'' \<and>
   indexPath jobs ''State'' ''running'' ''j1'' = ''jobs__index_State/running/j1''"
proof -
  have h1: "prefix jobs = dir_of False [''jobs'']"
    by (simp add: jobs_def NewCollection_def dir_of_def)
  have h2: "list_all plain_elem [''jobs'']" by (simp add: plain_elem_def)
  have h3: "list_all plain_elem [''j1'']" by (simp add: plain_elem_def)
  have h4: "[''j1''] \<noteq> ([] :: string list)" by simp
  have h5: "list_all plain_elem [''running'']" by (simp add: plain_elem_def)
  have h6: "[''running''] \<noteq> ([] :: string list)" by simp
  have h7: "CHR ''/'' \<notin> set ''State''" by simp
  have T: "TrimRight ''jobs/'' ''/'' = ''jobs''"
    by (simp add: TrimRight_def)
  have P: "prefix jobs = ''jobs/''" by (simp add: jobs_def NewCollection_def)
  have r: "path jobs ''j1'' = ''jobs/j1'' \<and>
           indexPath jobs ''State'' ''running'' ''j1'' = ''jobs__index_State/running/j1''"
    using derived_paths_concat [OF h1 h2 h3 h4 h5 h6 h7] by (simp add: T P)
  show ?thesis
    using h1 h2 h3 h4 h5 h6 h7 r by (intro conjI) simp_all
qed

text \<open>
  Claim C4 as stated fails: a key with a doubled slash, and an empty index value, are
  cleaned away, so the paths differ from the plain concatenations.
\<close>

theorem derived_paths_counterexample:
  "path jobs ''a//b'' \<noteq> prefix jobs @ ''a//b'' \<and>
   indexPath jobs ''State'' [] ''j1''
     \<noteq> TrimRight (prefix jobs) ''/'' @ ''__index_'' @ ''State'' @ ''/'' @ [] @ ''/'' @ ''j1''"
  by code_simp

section \<open>The constructor's prefix\<close>

text \<open>
  Claim C5, as amended. \<^verbatim>\<open>NewCollection\<close> appends a slash to a non-empty prefix that
  lacks one, and keeps every other prefix, the empty one included. So the prefix of
  a collection built from a non-empty name ends with a slash; and when the name does
  not end with a slash itself, no store key under a collection whose name extends it
  by a byte other than a slash (\<^verbatim>\<open>foobar\<close> for \<^verbatim>\<open>foo\<close>) starts with that prefix.
\<close>

theorem NewCollection_prefix_slash:
  assumes "pre \<noteq> []"
  shows "ends_with_slash (prefix (NewCollection pre ixs)) \<and>
         (last pre \<noteq> CHR ''/'' \<and> ch \<noteq> CHR ''/'' \<longrightarrow>
            \<not> has_prefix (prefix (NewCollection pre ixs))
                 (prefix (NewCollection (pre @ ch # ext) ixs') @ k))"
proof
  show "ends_with_slash (prefix (NewCollection pre ixs))"
    using assms by (simp add: NewCollection_def ends_with_slash_def)
next
  show "last pre \<noteq> CHR ''/'' \<and> ch \<noteq> CHR ''/'' \<longrightarrow>
          \<not> has_prefix (prefix (NewCollection pre ixs))
               (prefix (NewCollection (pre @ ch # ext) ixs') @ k)"
  proof
    assume a: "last pre \<noteq> CHR ''/'' \<and> ch \<noteq> CHR ''/''"
    have "\<exists>t. prefix (NewCollection (pre @ ch # ext) ixs') @ k = pre @ ch # t"
      by (simp add: NewCollection_def)
    then obtain t where t: "prefix (NewCollection (pre @ ch # ext) ixs') @ k = pre @ ch # t"
      by blast
    have "prefix (NewCollection pre ixs) = pre @ ''/''"
      using assms a by (simp add: NewCollection_def)
    then show "\<not> has_prefix (prefix (NewCollection pre ixs))
                   (prefix (NewCollection (pre @ ch # ext) ixs') @ k)"
      using a by (simp add: has_prefix_def t)
  qed
qed

theorem NewCollection_prefix_slash_witness:
  "''foo'' \<noteq> [] \<and> last ''foo'' \<noteq> CHR ''/'' \<and> CHR ''b'' \<noteq> CHR ''/'' \<and>
   ends_with_slash (prefix (NewCollection ''foo'' None)) \<and>
   \<not> has_prefix (prefix (NewCollection ''foo'' None))
       (prefix (NewCollection ''foobar'' None) @ ''k'')"
proof -
  have h: "''foo'' \<noteq> []" by simp
  show ?thesis
    using NewCollection_prefix_slash [OF h, of None "CHR ''b''" "''ar''" None "''k''"]
    by simp
qed

text \<open>
  Claim C5 as stated fails for the empty prefix, which the constructor keeps; and the
  prefixes of nested names do overlap.
\<close>

theorem NewCollection_prefix_counterexample:
  "\<not> ends_with_slash (prefix (NewCollection [] None)) \<and>
   has_prefix (prefix (NewCollection ''foo'' None)) (prefix (NewCollection ''foo/bar'' None))"
  by (simp add: NewCollection_def ends_with_slash_def has_prefix_def)

section \<open>The read-write collection: Put, Create, Delete\<close>

lemma stm_Get_Put_same: "stm_Get (stm_Put p v s) p = v"
  by (simp add: stm_Get_def stm_Put_def update_conv')

lemma stm_Get_Put_other: "q \<noteq> p \<Longrightarrow> stm_Get (stm_Put p v s) q = stm_Get s q"
  by (simp add: stm_Get_def stm_Put_def update_conv')

lemma stm_Get_Del_same: "stm_Get (stm_Del p s) p = []"
  by (simp add: stm_Get_def stm_Del_def delete_conv')

lemma stm_Get_Del_other: "q \<noteq> p \<Longrightarrow> stm_Get (stm_Del p s) q = stm_Get s q"
  by (simp add: stm_Get_def stm_Del_def delete_conv')

lemma writes_stm_Put: "writes (stm_Put p v s) = writes s @ [OpPut p v]"
  by (simp add: stm_Put_def)

lemma writes_stm_Del: "writes (stm_Del p s) = writes s @ [OpDel p]"
  by (simp add: stm_Del_def)

lemma Put_indexes_step:
  assumes "has_field P index"
  shows "Put_indexes P c key r (index # rest) s
         = Put_indexes P c key r rest (Put_index_step_spec P c key r s index)"
  using assms
  by (simp add: indexPathFromVal_def Put_index_step_spec_def Let_def split: sum.splits)

lemma Put_indexes_foldl:
  "list_all (has_field P) ixs \<Longrightarrow>
   Put_indexes P c key r ixs s = Some (foldl (Put_index_step_spec P c key r) s ixs)"
proof (induction ixs arbitrary: s)
  case Nil
  then show ?case by simp
next
  case (Cons index rest)
  then show ?case by (simp add: Put_indexes_step del: Put_indexes.simps)
qed

lemma writes_step_extends: "\<exists>ops. writes (Put_index_step_spec P c key r s index) = writes s @ ops"
  by (simp add: Put_index_step_spec_def Let_def writes_stm_Put writes_stm_Del split: sum.splits)

lemma writes_foldl_extends:
  "\<exists>ops. writes (foldl (Put_index_step_spec P c key r) s ixs) = writes s @ ops"
proof (induction ixs arbitrary: s)
  case Nil
  then show ?case by simp
next
  case (Cons index rest)
  obtain ops1 where 1: "writes (Put_index_step_spec P c key r s index) = writes s @ ops1"
    using writes_step_extends [of P c key r s index] by blast
  obtain ops2 where 2: "writes (foldl (Put_index_step_spec P c key r) (Put_index_step_spec P c key r s index) rest)
      = writes (Put_index_step_spec P c key r s index) @ ops2"
    using Cons.IH [of "Put_index_step_spec P c key r s index"] by blast
  show ?case using 1 2 by simp
qed

lemma readWrite_Put_Some:
  assumes "index_fields_exist P c"
  shows "\<exists>s'. readWrite_Put P c key r s = Some s'"
  using assms
  by (auto simp: index_fields_exist_def readWrite_Put_def Put_indexes_foldl split: option.splits)

lemma stm_Get_after_Put:
  "readWrite_Put P c key r s = Some s' \<Longrightarrow> stm_Get s' (path c key) = String_of P r"
  by (auto simp: readWrite_Put_def stm_Get_Put_same split: option.splits)

text \<open>
  Claim C1. For a collection with a declared index list whose indexes name fields of
  the record type, \<^verbatim>\<open>Put\<close> is the described procedure: the indexes are processed in
  declaration order; each step computes the new index path, deletes the prior index
  path when a prior record is readable at the key and gives a different path, and
  writes the key to the new index path only if that path reads as empty; the write of
  the serialized record to the primary path comes after all of them and is the last
  mutation queued.
\<close>

theorem Put_follows_description:
  assumes "indexes c = Some ixs" and "list_all (has_field P) ixs"
  shows "readWrite_Put P c key r s = Some (Put_spec P c key r ixs s) \<and>
         (\<exists>ops. writes (Put_spec P c key r ixs s)
                  = writes s @ ops @ [OpPut (path c key) (String_of P r)])"
proof -
  obtain ops where "writes (foldl (Put_index_step_spec P c key r) s ixs) = writes s @ ops"
    using writes_foldl_extends [of P c key r s ixs] by blast
  then have "writes (Put_spec P c key r ixs s) = writes s @ ops @ [OpPut (path c key) (String_of P r)]"
    by (simp add: Put_spec_def writes_stm_Put)
  then show ?thesis
    using assms by (auto simp: readWrite_Put_def Put_indexes_foldl Put_spec_def)
qed

theorem Put_follows_description_witness:
  "indexes jobs = Some [''State''] \<and> list_all (has_field job_proto) [''State''] \<and>
   readWrite_Put job_proto jobs ''j1'' \<lparr>State = ''done''\<rparr> s_running
     = Some (Put_spec job_proto jobs ''j1'' \<lparr>State = ''done''\<rparr> [''State''] s_running) \<and>
   writes (Put_spec job_proto jobs ''j1'' \<lparr>State = ''done''\<rparr> [''State''] s_running)
     = writes s_running
         @ [OpDel ''jobs__index_State/running/j1'', OpPut ''jobs__index_State/done/j1'' ''j1'']
         @ [OpPut ''jobs/j1'' ''State:done'']"
proof -
  have h1: "indexes jobs = Some [''State'']" by (simp add: jobs_def NewCollection_def)
  have h2: "list_all (has_field job_proto) [''State'']" by (simp add: job_proto_def)
  have w: "writes (Put_spec job_proto jobs ''j1'' \<lparr>State = ''done''\<rparr> [''State''] s_running)
     = writes s_running
         @ [OpDel ''jobs__index_State/running/j1'', OpPut ''jobs__index_State/done/j1'' ''j1'']
         @ [OpPut ''jobs/j1'' ''State:done'']"
    by code_simp
  have "readWrite_Put job_proto jobs ''j1'' \<lparr>State = ''done''\<rparr> s_running
     = Some (Put_spec job_proto jobs ''j1'' \<lparr>State = ''done''\<rparr> [''State''] s_running)"
    using Put_follows_description [OF h1 h2] by blast
  then show ?thesis using h1 h2 w by (intro conjI)
qed

text \<open>
  Claim C3, as amended. \<^verbatim>\<open>Put\<close> has no error result. In its index loop every failure
  of the read of the prior record, whatever the error, is treated as "no prior index
  entry": the step deletes nothing, writes the back-reference if the new index path
  reads as empty, and the loop goes on with the next index.
\<close>

theorem Put_ignores_read_failure:
  assumes "readWrite_Get P c s key = Inl e" and "has_field P index"
  shows "Put_indexes P c key r (index # rest) s =
           Put_indexes P c key r rest
             (if stm_Get s (indexPath c index (field_text P r index) key) = []
              then stm_Put (indexPath c index (field_text P r index) key) key s else s)"
  using assms by (simp add: indexPathFromVal_def)

theorem Put_ignores_read_failure_witness:
  "readWrite_Get job_proto jobs s_garbage ''j1'' = Inl (OtherError ''unknown field'') \<and>
   has_field job_proto ''State'' \<and>
   Put_indexes job_proto jobs ''j1'' \<lparr>State = ''done''\<rparr> [''State''] s_garbage
     = Some (stm_Put ''jobs__index_State/done/j1'' ''j1'' s_garbage)"
proof -
  have h1: "readWrite_Get job_proto jobs s_garbage ''j1'' = Inl (OtherError ''unknown field'')"
    by code_simp
  have h2: "has_field job_proto ''State''" by (simp add: job_proto_def)
  have ip: "indexPath jobs ''State'' (field_text job_proto \<lparr>State = ''done''\<rparr> ''State'') ''j1''
            = ''jobs__index_State/done/j1''"
    by code_simp
  have g: "stm_Get s_garbage ''jobs__index_State/done/j1'' = []" by code_simp
  show ?thesis
    using Put_ignores_read_failure [OF h1 h2, of "\<lparr>State = ''done''\<rparr>" "[]"] h1 h2
    by (simp add: ip g)
qed

text \<open>
  Claim C3 as stated fails: with a stored text that does not parse, the read of the
  prior record fails with an error other than "not found", and \<^verbatim>\<open>Put\<close> still
  completes, writing the index entry and the record.
\<close>

theorem Put_read_failure_counterexample:
  "readWrite_Get job_proto jobs s_garbage ''j1'' = Inl (OtherError ''unknown field'') \<and>
   readWrite_Put job_proto jobs ''j1'' \<lparr>State = ''done''\<rparr> s_garbage =
     Some \<lparr>store = [(''jobs/j1'', ''State:done''), (''jobs__index_State/done/j1'', ''j1'')],
           writes = [OpPut ''jobs__index_State/done/j1'' ''j1'', OpPut ''jobs/j1'' ''State:done'']\<rparr>"
  by code_simp



text \<open>
  Claim C9. The transactional interface encodes absence as the empty text. Where the
  primary path reads as empty, also after \<^verbatim>\<open>Put\<close> has written a record whose
  serialization is empty, \<^verbatim>\<open>Get\<close> returns \<^verbatim>\<open>ErrNotFound{prefix, key}\<close>, \<^verbatim>\<open>Create\<close> goes on
  to \<^verbatim>\<open>Put\<close> and returns \<^verbatim>\<open>nil\<close> (it succeeds whenever the declared indexes name
  fields of the record type), and \<^verbatim>\<open>Delete\<close> returns \<^verbatim>\<open>ErrNotFound{prefix, key}\<close> and
  changes nothing.
\<close>

theorem empty_text_is_absence:
  assumes "stm_Get s (path c key) = [] \<or>
           (String_of P r0 = [] \<and> readWrite_Put P c key r0 s0 = Some s)"
  shows "stm_Get s (path c key) = [] \<and>
         readWrite_Get P c s key = Inl (ErrNotFound (prefix c) key) \<and>
         readWrite_Create P c key r s = map_option (Pair None) (readWrite_Put P c key r s) \<and>
         (index_fields_exist P c \<longrightarrow> (\<exists>s'. readWrite_Create P c key r s = Some (None, s'))) \<and>
         readWrite_Delete P c key vals s = Some (Some (ErrNotFound (prefix c) key), s)"
proof -
  have e: "stm_Get s (path c key) = []"
    using assms stm_Get_after_Put [of P c key r0 s0 s] by auto
  have cr: "readWrite_Create P c key r s = map_option (Pair None) (readWrite_Put P c key r s)"
    using e by (simp add: readWrite_Create_def split: option.splits)
  have "\<exists>s'. readWrite_Create P c key r s = Some (None, s')" if "index_fields_exist P c"
    using readWrite_Put_Some [OF that, of key r s] cr by auto
  then show ?thesis
    using e cr by (simp add: readWrite_Get_def readWrite_Delete_def)
qed

theorem empty_text_is_absence_witness:
  "String_of job_proto \<lparr>State = []\<rparr> = [] \<and>
   readWrite_Put job_proto jobs ''j1'' \<lparr>State = []\<rparr> \<lparr>store = [], writes = []\<rparr>
     = Some \<lparr>store = [(''jobs__index_State/j1'', ''j1''), (''jobs/j1'', [])],
             writes = [OpPut ''jobs__index_State/j1'' ''j1'', OpPut ''jobs/j1'' []]\<rparr> \<and>
   index_fields_exist job_proto jobs \<and>
   readWrite_Get job_proto jobs
       \<lparr>store = [(''jobs__index_State/j1'', ''j1''), (''jobs/j1'', [])],
        writes = [OpPut ''jobs__index_State/j1'' ''j1'', OpPut ''jobs/j1'' []]\<rparr> ''j1''
     = Inl (ErrNotFound (prefix jobs) ''j1'') \<and>
   (\<exists>s'. readWrite_Create job_proto jobs ''j1'' \<lparr>State = ''done''\<rparr>
       \<lparr>store = [(''jobs__index_State/j1'', ''j1''), (''jobs/j1'', [])],
        writes = [OpPut ''jobs__index_State/j1'' ''j1'', OpPut ''jobs/j1'' []]\<rparr>
       = Some (None, s')) \<and>
   readWrite_Delete job_proto jobs ''j1'' [\<lparr>State = []\<rparr>]
       \<lparr>store = [(''jobs__index_State/j1'', ''j1''), (''jobs/j1'', [])],
        writes = [OpPut ''jobs__index_State/j1'' ''j1'', OpPut ''jobs/j1'' []]\<rparr>
     = Some (Some (ErrNotFound (prefix jobs) ''j1''),
             \<lparr>store = [(''jobs__index_State/j1'', ''j1''), (''jobs/j1'', [])],
              writes = [OpPut ''jobs__index_State/j1'' ''j1'', OpPut ''jobs/j1'' []]\<rparr>)"
proof -
  let ?s = "\<lparr>store = [(''jobs__index_State/j1'', ''j1''), (''jobs/j1'', [])],
             writes = [OpPut ''jobs__index_State/j1'' ''j1'', OpPut ''jobs/j1'' []]\<rparr>"
  have h1: "String_of job_proto \<lparr>State = []\<rparr> = []" by code_simp
  have h2: "readWrite_Put job_proto jobs ''j1'' \<lparr>State = []\<rparr> \<lparr>store = [], writes = []\<rparr> = Some ?s"
    by code_simp
  have h3: "index_fields_exist job_proto jobs" by code_simp
  have h: "stm_Get ?s (path jobs ''j1'') = [] \<or>
           (String_of job_proto \<lparr>State = []\<rparr> = [] \<and>
            readWrite_Put job_proto jobs ''j1'' \<lparr>State = []\<rparr> \<lparr>store = [], writes = []\<rparr> = Some ?s)"
    using h1 h2 by blast
  show ?thesis
    using empty_text_is_absence [OF h, of "\<lparr>State = ''done''\<rparr>" "[\<lparr>State = []\<rparr>]"] h1 h2 h3
    by blast
qed

text \<open>
  Claim C10. For a key whose primary path reads as non-empty, \<^verbatim>\<open>Delete\<close> called with
  no record value, or on a collection whose index list is \<^verbatim>\<open>nil\<close>, queues the
  deletion of the primary path and nothing else: every other path, each index entry
  among them, reads as before.
\<close>

theorem Delete_without_value_keeps_indexes:
  assumes "stm_Get s (path c key) \<noteq> []" and "vals = [] \<or> indexes c = None"
  shows "readWrite_Delete P c key vals s = Some (None, stm_Del (path c key) s) \<and>
         writes (stm_Del (path c key) s) = writes s @ [OpDel (path c key)] \<and>
         stm_Get (stm_Del (path c key) s) (path c key) = [] \<and>
         (\<forall>p. p \<noteq> path c key \<longrightarrow> stm_Get (stm_Del (path c key) s) p = stm_Get s p)"
  using assms
  by (auto simp: readWrite_Delete_def writes_stm_Del stm_Get_Del_same stm_Get_Del_other
           split: option.splits)

theorem Delete_without_value_keeps_indexes_witness:
  "stm_Get s_running (path jobs ''j1'') \<noteq> [] \<and>
   readWrite_Delete job_proto jobs ''j1'' [] s_running
     = Some (None, \<lparr>store = [(''jobs__index_State/running/j1'', ''j1'')],
                    writes = writes s_running @ [OpDel ''jobs/j1'']\<rparr>) \<and>
   stm_Get (stm_Del (path jobs ''j1'') s_running) ''jobs__index_State/running/j1'' = ''j1''"
proof -
  have h1: "stm_Get s_running (path jobs ''j1'') \<noteq> []" by code_simp
  have h2: "([] :: job list) = [] \<or> indexes jobs = None" by simp
  have d: "stm_Del (path jobs ''j1'') s_running
           = \<lparr>store = [(''jobs__index_State/running/j1'', ''j1'')],
              writes = writes s_running @ [OpDel ''jobs/j1'']\<rparr>"
    by code_simp
  have g: "stm_Get s_running ''jobs__index_State/running/j1'' = ''j1''" by code_simp
  have n: "''jobs__index_State/running/j1'' \<noteq> path jobs ''j1''" by code_simp
  show ?thesis
    using Delete_without_value_keeps_indexes [OF h1 h2, of job_proto] h1 d g n
    by (auto simp del: One_nat_def)
qed

section \<open>The integer collection: malformed text\<close>

lemma Atoi_error: "Atoi v = Inl e \<Longrightarrow> \<exists>k. e = NumError v k"
  by (auto simp: Atoi_def Let_def split: if_splits sum.splits)

text \<open>
  Claim C2, on the code. For a stored text that is non-empty and that \<^verbatim>\<open>strconv.Atoi\<close>
  rejects, \<^verbatim>\<open>Get\<close> of the integer collection returns the \<^verbatim>\<open>strconv\<close> error as it is,
  not \<^verbatim>\<open>ErrMalformedValue\<close>; \<^verbatim>\<open>Increment\<close> and \<^verbatim>\<open>Decrement\<close>, on the same stored
  text, return \<^verbatim>\<open>ErrMalformedValue{prefix, key, text}\<close>.
\<close>

theorem readWriteInt_Get_returns_NumError:
  assumes "stm_Get s (path c key) = v" and "v \<noteq> []" and "Atoi v = Inl e"
  shows "readWriteInt_Get c s key = Inl e \<and> (\<exists>k. e = NumError v k) \<and>
         readWriteInt_Get c s key \<noteq> Inl (ErrMalformedValue (prefix c) key v) \<and>
         readWriteInt_Increment c key s = (Some (ErrMalformedValue (prefix c) key v), s) \<and>
         readWriteInt_Decrement c key s = (Some (ErrMalformedValue (prefix c) key v), s)"
  using assms Atoi_error [of v e]
  by (auto simp: readWriteInt_Get_def readWriteInt_Increment_def readWriteInt_Decrement_def)

theorem readWriteInt_Get_returns_NumError_witness:
  "stm_Get \<lparr>store = [(''jobs/n'', ''abc'')], writes = []\<rparr> (path jobs ''n'') = ''abc'' \<and>
   ''abc'' \<noteq> [] \<and> Atoi ''abc'' = Inl (NumError ''abc'' ErrSyntax) \<and>
   readWriteInt_Get jobs \<lparr>store = [(''jobs/n'', ''abc'')], writes = []\<rparr> ''n''
     = Inl (NumError ''abc'' ErrSyntax) \<and>
   readWriteInt_Increment jobs ''n'' \<lparr>store = [(''jobs/n'', ''abc'')], writes = []\<rparr>
     = (Some (ErrMalformedValue (prefix jobs) ''n'' ''abc''),
        \<lparr>store = [(''jobs/n'', ''abc'')], writes = []\<rparr>)"
proof -
  have h1: "stm_Get \<lparr>store = [(''jobs/n'', ''abc'')], writes = []\<rparr> (path jobs ''n'') = ''abc''"
    by code_simp
  have h2: "''abc'' \<noteq> []" by simp
  have h3: "Atoi ''abc'' = Inl (NumError ''abc'' ErrSyntax)" by code_simp
  show ?thesis
    using readWriteInt_Get_returns_NumError [OF h1 h2 h3] h1 h2 h3 by blast
qed

section \<open>Reading and watching by index\<close>



text \<open>
  Claim C8. For an indirect put event the forwarding loop reads the primary path of
  the key named by the event: when the read fails, it sends one error event, closes
  the channel and stops; when the read finds nothing, it sends nothing and goes on
  with the next event; when the read finds a value, it sends a put event with the
  key and that value. An indirect delete event becomes a delete event with the key
  and no value.
\<close>

theorem WatchByIndex_translation:
  "(evType ev = EventPut \<and> etcd_Get cl (path c (Base (evKey ev))) = Inl err \<longrightarrow>
      WatchByIndex c ((ev, cl) # rest)
        = ([\<lparr>evKey = [], evValue = [], evType = EventError, evErr = Some err\<rparr>], True)) \<and>
   (evType ev = EventPut \<and> etcd_Get cl (path c (Base (evKey ev))) = Inr [] \<longrightarrow>
      WatchByIndex c ((ev, cl) # rest) = WatchByIndex c rest) \<and>
   (evType ev = EventPut \<and> etcd_Get cl (path c (Base (evKey ev))) = Inr (kv # kvs) \<longrightarrow>
      WatchByIndex c ((ev, cl) # rest)
        = (\<lparr>evKey = Base (evKey ev), evValue = snd kv, evType = EventPut, evErr = None\<rparr>
             # fst (WatchByIndex c rest),
           snd (WatchByIndex c rest))) \<and>
   (evType ev = EventDelete \<longrightarrow>
      WatchByIndex c ((ev, cl) # rest)
        = (\<lparr>evKey = Base (evKey ev), evValue = [], evType = EventDelete, evErr = None\<rparr>
             # fst (WatchByIndex c rest),
           snd (WatchByIndex c rest)))"
  by simp


theorem WatchByIndex_translation_witness:
  "evType (ev_put ''j1'') = EventPut \<and> evType (ev_delete ''j1'') = EventDelete \<and>
   etcd_Get (Failing (OtherError ''unavailable'')) (path jobs (Base (evKey (ev_put ''j1''))))
     = Inl (OtherError ''unavailable'') \<and>
   etcd_Get live_j1 (path jobs (Base (evKey (ev_put ''j2'')))) = Inr [] \<and>
   etcd_Get live_j1 (path jobs (Base (evKey (ev_put ''j1''))))
     = Inr [(''jobs/j1'', ''State:running'')] \<and>
   WatchByIndex jobs [(ev_put ''j1'', Failing (OtherError ''unavailable'')), (ev_delete ''j1'', live_j1)]
     = ([\<lparr>evKey = [], evValue = [], evType = EventError,
           evErr = Some (OtherError ''unavailable'')\<rparr>], True) \<and>
   WatchByIndex jobs [(ev_put ''j2'', live_j1)] = ([], True) \<and>
   WatchByIndex jobs [(ev_put ''j1'', live_j1)]
     = ([\<lparr>evKey = ''j1'', evValue = ''State:running'', evType = EventPut, evErr = None\<rparr>], True) \<and>
   WatchByIndex jobs [(ev_delete ''j1'', live_j1)]
     = ([\<lparr>evKey = ''j1'', evValue = [], evType = EventDelete, evErr = None\<rparr>], True)"
proof -
  have t1: "evType (ev_put ''j1'') = EventPut" by code_simp
  have t2: "evType (ev_delete ''j1'') = EventDelete" by code_simp
  have t3: "evType (ev_put ''j2'') = EventPut" by code_simp
  have g1: "etcd_Get (Failing (OtherError ''unavailable'')) (path jobs (Base (evKey (ev_put ''j1''))))
     = Inl (OtherError ''unavailable'')" by code_simp
  have g2: "etcd_Get live_j1 (path jobs (Base (evKey (ev_put ''j2'')))) = Inr []" by code_simp
  have g3: "etcd_Get live_j1 (path jobs (Base (evKey (ev_put ''j1''))))
     = Inr [(''jobs/j1'', ''State:running'')]" by code_simp
  have b1: "Base (evKey (ev_put ''j1'')) = ''j1''" by code_simp
  have b2: "Base (evKey (ev_delete ''j1'')) = ''j1''" by code_simp
  have r1: "WatchByIndex jobs [(ev_put ''j1'', Failing (OtherError ''unavailable'')), (ev_delete ''j1'', live_j1)]
     = ([\<lparr>evKey = [], evValue = [], evType = EventError,
           evErr = Some (OtherError ''unavailable'')\<rparr>], True)"
    using WatchByIndex_translation [of "ev_put ''j1''" "Failing (OtherError ''unavailable'')" jobs
        "OtherError ''unavailable''" "[(ev_delete ''j1'', live_j1)]"] t1 g1
    by blast
  have r2: "WatchByIndex jobs [(ev_put ''j2'', live_j1)] = WatchByIndex jobs []"
    using WatchByIndex_translation [of "ev_put ''j2''" live_j1 jobs _ "[]"] t3 g2
    by blast
  have r3: "WatchByIndex jobs [(ev_put ''j1'', live_j1)]
     = (\<lparr>evKey = Base (evKey (ev_put ''j1'')), evValue = snd (''jobs/j1'', ''State:running''),
          evType = EventPut, evErr = None\<rparr> # fst (WatchByIndex jobs []),
        snd (WatchByIndex jobs []))"
    using WatchByIndex_translation [of "ev_put ''j1''" live_j1 jobs _ "[]"
        "(''jobs/j1'', ''State:running'')" "[]"] t1 g3
    by blast
  have r4: "WatchByIndex jobs [(ev_delete ''j1'', live_j1)]
     = (\<lparr>evKey = Base (evKey (ev_delete ''j1'')), evValue = [], evType = EventDelete,
          evErr = None\<rparr> # fst (WatchByIndex jobs []),
        snd (WatchByIndex jobs []))"
    using WatchByIndex_translation [of "ev_delete ''j1''" live_j1 jobs _ "[]"] t2
    by blast
  show ?thesis
    using t1 t2 g1 g2 g3 r1 r2 r3 r4 by (simp add: b1 b2)
qed

end
